theory Spec2Isabelle
  imports Complex_Main
begin

section \<open>Partitioning Around Medoids: the function \<open>cluster_PAM\<close> of Algorytm_PAM.py\<close>

text \<open>
  The Python function \<open>cluster_PAM(X, k)\<close> validates its arguments, builds the matrix of
  pairwise Euclidean distances, draws \<open>k\<close> initial medoids at random, improves them by
  swaps until a full pass leaves the set of medoids unchanged, and returns the medoids, the
  assignment of every point and the cost.

  Modelling decisions.
  \<^item> A float64 entry is a real number or NaN (\<open>fl\<close>). Arithmetic on entries that passed the
    NaN check is exact real arithmetic: rounding, overflow and the infinities of IEEE
    floating point are outside this model, and so are integer and non-numeric dtypes.
  \<^item> The argument \<open>X\<close> is any Python object: something that is not an ndarray, or an
    ndarray with its shape and its entries in row-major order.
  \<^item> The argument \<open>k\<close> is any Python object, told apart by what \<open>isinstance(k, int)\<close>
    answers: a native int, a bool (a subclass of int), a NumPy integer scalar, a float, or
    something else.
  \<^item> \<open>np.random.choice(n_samples, k, replace=False)\<close> is the one source of randomness. Its
    result is the extra argument \<open>draw\<close> of the model: the list of drawn indices, in the
    order drawn.
  \<^item> Every exception is a value \<open>Inl e\<close>. The handler of the source prints the exception
    and raises it again, so the exception that leaves the function is the one raised.
  \<^item> The \<open>while True\<close> loop is a partial function into \<open>option\<close>: \<open>None\<close> is a run that
    never leaves the loop. The loop also counts its passes; the counter is a ghost value
    of the model, not a variable of the source.
\<close>

subsection \<open>Values\<close>

datatype error = ValueError string | IndexError

datatype fl = Num real | NaN

datatype pyX = NotNdarray | Ndarray (shape: "nat list") (entries: "fl list")

datatype pyK = PyInt int | PyBool bool | NpInt int | PyFloat real | PyOther

record result =
  medoids :: "nat list"
  clusters :: "nat list"
  final_cost :: real

fun isnan :: "fl \<Rightarrow> bool" where
  "isnan NaN = True"
| "isnan (Num r) = False"

text \<open>The value of an entry that is a number; it is only used after the NaN check.\<close>

fun num :: "fl \<Rightarrow> real" where
  "num (Num r) = r"

text \<open>
  \<open>isinstance(k, int)\<close> holds for a native int and for a bool; the result is the integer
  that \<open>k\<close> then compares as (\<open>True\<close> is 1, \<open>False\<close> is 0). \<open>None\<close>: not an instance.
\<close>

fun isinstance_int :: "pyK \<Rightarrow> int option" where
  "isinstance_int (PyInt i) = Some i"
| "isinstance_int (PyBool b) = Some (if b then 1 else 0)"
| "isinstance_int (NpInt i) = None"
| "isinstance_int (PyFloat r) = None"
| "isinstance_int PyOther = None"

text \<open>Row \<open>i\<close> of an array of shape \<open>(n, d)\<close> stored in row-major order.\<close>

definition rows_of :: "nat \<Rightarrow> nat \<Rightarrow> 'a list \<Rightarrow> 'a list list" where
  "rows_of n d xs = map (\<lambda>i. take d (drop (i * d) xs)) [0..<n]"

subsection \<open>The distance matrix\<close>

text \<open>\<open>X - X[i]\<close>: the row is subtracted from every row of \<open>X\<close>.\<close>

definition sub_broadcast :: "real list list \<Rightarrow> real list \<Rightarrow> real list list" where
  "sub_broadcast X r = map (\<lambda>x. map2 (-) x r) X"

text \<open>\<open>np.linalg.norm(A, axis=1)\<close>: the Euclidean norm of every row.\<close>

definition norm_axis1 :: "real list list \<Rightarrow> real list" where
  "norm_axis1 A = map (\<lambda>v. sqrt (sum_list (map (\<lambda>x. x * x) v))) A"

definition cost_matrix :: "real list list \<Rightarrow> real list list" where
  "cost_matrix X = map (\<lambda>i. norm_axis1 (sub_broadcast X (X ! i))) [0..<length X]"

subsection \<open>The cost of a list of medoids\<close>

text \<open>
  \<open>cost_matrix[:, medoids]\<close> raises IndexError when the matrix has no second axis (no
  rows at all) or an index is out of range.
\<close>

definition select_columns :: "real list list \<Rightarrow> nat \<Rightarrow> nat list \<Rightarrow> error + real list list" where
  "select_columns D n ms =
     (if n = 0 \<or> (\<exists>m\<in>set ms. n \<le> m) then Inl IndexError
      else Inr (map (\<lambda>row. map (\<lambda>m. row ! m) ms) D))"

text \<open>\<open>np.min(M, axis=1)\<close> raises ValueError on rows without entries.\<close>

definition min_axis1 :: "real list list \<Rightarrow> error + real list" where
  "min_axis1 M =
     (if \<exists>row\<in>set M. row = []
      then Inl (ValueError ''zero-size array to reduction operation minimum which has no identity'')
      else Inr (map (\<lambda>row. Min (set row)) M))"

text \<open>\<open>np.argmin(M, axis=1)\<close>: the position of the first occurrence of the minimum.\<close>

definition argmin_axis1 :: "real list list \<Rightarrow> nat list" where
  "argmin_axis1 M = map (\<lambda>row. length (takeWhile (\<lambda>x. x \<noteq> Min (set row)) row)) M"

text \<open>\<open>np.sum(np.min(cost_matrix[:, medoids], axis=1))\<close>.\<close>

definition total_cost :: "real list list \<Rightarrow> nat \<Rightarrow> nat list \<Rightarrow> error + real" where
  "total_cost D n ms =
     (case select_columns D n ms of
        Inl e \<Rightarrow> Inl e
      | Inr M \<Rightarrow> (case min_axis1 M of Inl e \<Rightarrow> Inl e | Inr v \<Rightarrow> Inr (sum_list v)))"

subsection \<open>The swap search\<close>

text \<open>\<open>xs.remove(x)\<close> removes the first occurrence and raises ValueError when there is none.\<close>

definition list_remove :: "nat list \<Rightarrow> nat \<Rightarrow> error + nat list" where
  "list_remove xs x =
     (if x \<in> set xs then Inr (remove1 x xs)
      else Inl (ValueError ''list.remove(x): x not in list''))"

text \<open>
  The body of \<open>for candidate in range(n_samples)\<close>. The state of the scan is
  \<open>(best_cost, best_medoid)\<close>; \<open>medoids\<close> does not change during the scan.
\<close>

definition try_candidate ::
  "real list list \<Rightarrow> nat \<Rightarrow> nat list \<Rightarrow> nat \<Rightarrow> real \<times> nat \<Rightarrow> nat \<Rightarrow> error + real \<times> nat" where
  "try_candidate D n ms medoid st candidate =
     (if candidate \<notin> set ms then
        (case list_remove ms medoid of
           Inl e \<Rightarrow> Inl e
         | Inr t \<Rightarrow>
            (case total_cost D n (t @ [candidate]) of
               Inl e \<Rightarrow> Inl e
             | Inr test_cost \<Rightarrow>
                 if test_cost < fst st then Inr (test_cost, candidate) else Inr st))
      else Inr st)"

fun scan_candidates ::
  "real list list \<Rightarrow> nat \<Rightarrow> nat list \<Rightarrow> nat \<Rightarrow> nat list \<Rightarrow> real \<times> nat \<Rightarrow> error + real \<times> nat" where
  "scan_candidates D n ms medoid [] st = Inr st"
| "scan_candidates D n ms medoid (candidate # cs) st =
     (case try_candidate D n ms medoid st candidate of
        Inl e \<Rightarrow> Inl e
      | Inr st' \<Rightarrow> scan_candidates D n ms medoid cs st')"

text \<open>
  The body of \<open>for medoid in medoids_before_this_iteration\<close>: scan the candidates, then
  remove the medoid and append the best replacement (the medoid itself when no candidate
  was strictly better). The state is \<open>(medoids, best_cost)\<close>.
\<close>

definition replace_medoid ::
  "real list list \<Rightarrow> nat \<Rightarrow> nat list \<times> real \<Rightarrow> nat \<Rightarrow> error + nat list \<times> real" where
  "replace_medoid D n st medoid =
     (case scan_candidates D n (fst st) medoid [0..<n] (snd st, medoid) of
        Inl e \<Rightarrow> Inl e
      | Inr (best_cost, best_medoid) \<Rightarrow>
         (case list_remove (fst st) medoid of
            Inl e \<Rightarrow> Inl e
          | Inr ms' \<Rightarrow> Inr (ms' @ [best_medoid], best_cost)))"

fun sweep ::
  "real list list \<Rightarrow> nat \<Rightarrow> nat list \<Rightarrow> nat list \<times> real \<Rightarrow> error + nat list \<times> real" where
  "sweep D n [] st = Inr st"
| "sweep D n (medoid # rest) st =
     (case replace_medoid D n st medoid of
        Inl e \<Rightarrow> Inl e
      | Inr st' \<Rightarrow> sweep D n rest st')"

text \<open>
  The \<open>while True\<close> loop. One pass sweeps over a copy of the medoids; the loop ends when
  the set of medoids after the pass equals the set before it. \<open>passes\<close> counts the passes
  that were run before this one.
\<close>

partial_function (option) pam_loop ::
  "real list list \<Rightarrow> nat \<Rightarrow> nat list \<times> real \<Rightarrow> nat \<Rightarrow> (error + (nat list \<times> real) \<times> nat) option" where
  "pam_loop D n st passes =
     (case sweep D n (fst st) st of
        Inl e \<Rightarrow> Some (Inl e)
      | Inr st' \<Rightarrow>
          if set (fst st') = set (fst st) then Some (Inr (st', Suc passes))
          else pam_loop D n st' (Suc passes))"

text \<open>The optimizer: the first cost of the drawn medoids, then the loop.\<close>

definition optimizer ::
  "real list list \<Rightarrow> nat \<Rightarrow> nat list \<Rightarrow> (error + (nat list \<times> real) \<times> nat) option" where
  "optimizer D n draw =
     (case total_cost D n draw of
        Inl e \<Rightarrow> Some (Inl e)
      | Inr best_cost \<Rightarrow> pam_loop D n (draw, best_cost) 0)"

text \<open>The final assignment of the points and the final cost.\<close>

definition finalizer :: "real list list \<Rightarrow> nat \<Rightarrow> nat list \<Rightarrow> error + result" where
  "finalizer D n ms =
     (case select_columns D n ms of
        Inl e \<Rightarrow> Inl e
      | Inr final_matrix \<Rightarrow>
         (case min_axis1 final_matrix of
            Inl e \<Rightarrow> Inl e
          | Inr v \<Rightarrow>
              Inr \<lparr>medoids = ms, clusters = argmin_axis1 final_matrix,
                   final_cost = sum_list v\<rparr>))"

subsection \<open>The function\<close>

definition cluster_PAM :: "pyX \<Rightarrow> pyK \<Rightarrow> nat list \<Rightarrow> (error + result) option" where
  "cluster_PAM X k draw =
     (case X of
        NotNdarray \<Rightarrow> Some (Inl (ValueError ''Input data X must be a NumPy array.''))
      | Ndarray shp xs \<Rightarrow>
          if length shp \<noteq> 2
          then Some (Inl (ValueError ''Input data X must be a 2D NumPy array (n_samples, n_features).''))
          else (case isinstance_int k of
            None \<Rightarrow> Some (Inl (ValueError ''Number of clusters k must be a positive integer.''))
          | Some kv \<Rightarrow>
              if kv \<le> 0
              then Some (Inl (ValueError ''Number of clusters k must be a positive integer.''))
              else if kv > int (shp ! 0)
              then Some (Inl (ValueError ''Number of clusters k cannot exceed the number of data points.''))
              else if \<exists>x\<in>set xs. isnan x
              then Some (Inl (ValueError ''Input data X contains NaN values. Please handle missing data before running the algorithm.''))
              else
                (let D = cost_matrix (rows_of (shp ! 0) (shp ! 1) (map num xs));
                     n_samples = shp ! 0
                 in case optimizer D n_samples draw of
                      None \<Rightarrow> None
                    | Some (Inl e) \<Rightarrow> Some (Inl e)
                    | Some (Inr ((ms, best_cost), passes)) \<Rightarrow> Some (finalizer D n_samples ms))))"

subsection \<open>Notions used to state the properties\<close>

text \<open>
  The cost of a list of medoids as a plain number: the sum over the rows of the matrix of
  the least entry among the columns of the medoids. It is what \<open>total_cost\<close> returns
  whenever it returns (lemma \<open>total_cost_ok\<close>).
\<close>

definition cost_of :: "real list list \<Rightarrow> nat list \<Rightarrow> real" where
  "cost_of D ms = sum_list (map (\<lambda>row. Min (set (map (\<lambda>m. row ! m) ms))) D)"

text \<open>A list of \<open>k\<close> pairwise distinct row indices of a matrix with \<open>n\<close> rows.\<close>

definition medoids_ok :: "nat \<Rightarrow> nat \<Rightarrow> nat list \<Rightarrow> bool" where
  "medoids_ok n k ms \<longleftrightarrow> length ms = k \<and> distinct ms \<and> (\<forall>m\<in>set ms. m < n)"

text \<open>
  A valid input: a two-dimensional array with \<open>n\<close> rows whose entries are numbers, and a
  native integer \<open>k\<close> with \<open>0 < k \<le> n\<close>.
\<close>

definition valid_input :: "pyX \<Rightarrow> pyK \<Rightarrow> nat \<Rightarrow> nat \<Rightarrow> bool" where
  "valid_input X k n kk \<longleftrightarrow>
     (\<exists>d xs. X = Ndarray [n, d] xs \<and> length xs = n * d \<and> (\<forall>x\<in>set xs. \<not> isnan x)) \<and>
     k = PyInt (int kk) \<and> 0 < kk \<and> kk \<le> n"

text \<open>The distance matrix that \<open>cluster_PAM\<close> builds from a two-dimensional array.\<close>

definition distances :: "pyX \<Rightarrow> real list list" where
  "distances X = cost_matrix (rows_of (shape X ! 0) (shape X ! 1) (map num (entries X)))"

text \<open>
  The states \<open>(medoids, best_cost)\<close> that the optimizer can be in between two
  replacements: the state after the draw, and the state after replacing a medoid of a
  state that can be reached.
\<close>

inductive reachable :: "real list list \<Rightarrow> nat \<Rightarrow> nat list \<Rightarrow> nat list \<times> real \<Rightarrow> bool"
  for D :: "real list list" and n :: nat and draw :: "nat list" where
  initial: "total_cost D n draw = Inr best_cost \<Longrightarrow> reachable D n draw (draw, best_cost)"
| replaced: "reachable D n draw st \<Longrightarrow> medoid \<in> set (fst st) \<Longrightarrow>
     replace_medoid D n st medoid = Inr st' \<Longrightarrow> reachable D n draw st'"

text \<open>No swap of a medoid for a candidate costs strictly less than the medoids do.\<close>

definition no_improving_swap :: "real list list \<Rightarrow> nat \<Rightarrow> nat list \<Rightarrow> bool" where
  "no_improving_swap D n ms \<longleftrightarrow>
     (\<forall>medoid\<in>set ms. \<forall>candidate\<in>set [0..<n]. candidate \<notin> set ms \<longrightarrow>
        (\<forall>t b. total_cost D n (remove1 medoid ms @ [candidate]) = Inr t \<longrightarrow>
               total_cost D n ms = Inr b \<longrightarrow> \<not> t < b))"

text \<open>The lists of medoids that cost strictly less than a given one; there are finitely many.\<close>

definition cheaper :: "real list list \<Rightarrow> nat \<Rightarrow> nat \<Rightarrow> nat list \<Rightarrow> nat list set" where
  "cheaper D n k ms = {xs. length xs = k \<and> (\<forall>m\<in>set xs. m < n) \<and> cost_of D xs < cost_of D ms}"








text \<open>Small inputs on which the theorems are tried: points on a line, and the four
  points of the scenario of the specification.\<close>

definition two_points :: pyX where
  "two_points = Ndarray [2, 1] [Num 0, Num 1]"

definition three_points :: pyX where
  "three_points = Ndarray [3, 1] [Num 0, Num 1, Num 2]"

definition four_points :: pyX where
  "four_points = Ndarray [4, 2] [Num 0, Num 0, Num 0, Num 1, Num 10, Num 10, Num 10, Num 11]"

text \<open>The shape of the distance matrix of the four points: \<open>a\<close>, \<open>b\<close> and \<open>c\<close> are the
  distances between points of different pairs.\<close>

definition scenario_matrix :: "real \<Rightarrow> real \<Rightarrow> real \<Rightarrow> real list list" where
  "scenario_matrix a b c = [[0, 1, a, b], [1, 0, c, a], [a, c, 0, 1], [b, a, 1, 0]]"

section \<open>The distance matrix\<close>

lemma length_rows_of: "length (rows_of n d xs) = n"
  by (simp add: rows_of_def)


lemma length_cost_matrix: "length (cost_matrix X) = length X"
  by (simp add: cost_matrix_def)

lemma cost_matrix_row_length: "i < length X \<Longrightarrow> length (cost_matrix X ! i) = length X"
  by (simp add: cost_matrix_def norm_axis1_def sub_broadcast_def)









lemma row_entry:
  "length xs = n * d \<Longrightarrow> i < n \<Longrightarrow> c < d \<Longrightarrow> take d (drop (i * d) xs) ! c = xs ! (i * d + c)"
  by simp


section \<open>Costs and the swap search\<close>

lemma total_cost_ok:
  assumes "0 < n" "ms \<noteq> []" "\<forall>m\<in>set ms. m < n"
  shows "total_cost D n ms = Inr (cost_of D ms)"
proof -
  have sel: "select_columns D n ms = Inr (map (\<lambda>row. map (\<lambda>m. row ! m) ms) D)"
    using assms(1,3) by (auto simp: select_columns_def)
  have mn: "min_axis1 (map (\<lambda>row. map (\<lambda>m. row ! m) ms) D)
            = Inr (map (\<lambda>row. Min (set row)) (map (\<lambda>row. map (\<lambda>m. row ! m) ms) D))"
    using assms(2) by (auto simp: min_axis1_def)
  show ?thesis
    by (simp add: total_cost_def sel mn cost_of_def comp_def)
qed

lemma cost_of_set_cong: "set a = set b \<Longrightarrow> cost_of D a = cost_of D b"
  by (simp add: cost_of_def)

lemma try_candidate_ok:
  assumes "0 < n" "medoid \<in> set ms" "\<forall>m\<in>set ms. m < n" "c < n"
  shows "try_candidate D n ms medoid (bc, bm) c =
           (if c \<notin> set ms \<and> cost_of D (remove1 medoid ms @ [c]) < bc
            then Inr (cost_of D (remove1 medoid ms @ [c]), c) else Inr (bc, bm))"
proof -
  have "\<forall>m\<in>set (remove1 medoid ms @ [c]). m < n"
    using assms(3,4) by (auto dest: notin_set_remove1)
  then have "total_cost D n (remove1 medoid ms @ [c]) = Inr (cost_of D (remove1 medoid ms @ [c]))"
    using assms(1) by (intro total_cost_ok) simp_all
  then show ?thesis
    using assms(2) by (simp add: try_candidate_def list_remove_def)
qed

lemma scan_candidates_ok:
  assumes "0 < n" "medoid \<in> set ms" "\<forall>m\<in>set ms. m < n" "\<forall>c\<in>set cs. c < n"
  shows "\<exists>bc' bm'. scan_candidates D n ms medoid cs (bc, bm) = Inr (bc', bm') \<and>
           ((bc' = bc \<and> bm' = bm) \<or>
            (bm' \<in> set cs \<and> bm' \<notin> set ms \<and>
             bc' = cost_of D (remove1 medoid ms @ [bm']) \<and> bc' < bc))"
  using assms(4)
proof (induction cs arbitrary: bc bm)
  case Nil
  then show ?case by simp
next
  case (Cons c cs)
  have c: "c < n" and cs: "\<forall>c\<in>set cs. c < n" using Cons.prems by simp_all
  note tc = try_candidate_ok [OF assms(1,2,3) c, of D bc bm]
  show ?case
  proof (cases "c \<notin> set ms \<and> cost_of D (remove1 medoid ms @ [c]) < bc")
    case True
    let ?t = "cost_of D (remove1 medoid ms @ [c])"
    from Cons.IH [OF cs, of ?t c] obtain bc' bm' where
      r: "scan_candidates D n ms medoid cs (?t, c) = Inr (bc', bm')" and
      d: "(bc' = ?t \<and> bm' = c) \<or>
          (bm' \<in> set cs \<and> bm' \<notin> set ms \<and> bc' = cost_of D (remove1 medoid ms @ [bm']) \<and> bc' < ?t)"
      by blast
    have "scan_candidates D n ms medoid (c # cs) (bc, bm) = Inr (bc', bm')"
      using True tc r by auto
    moreover have "bm' \<in> set (c # cs) \<and> bm' \<notin> set ms \<and>
             bc' = cost_of D (remove1 medoid ms @ [bm']) \<and> bc' < bc"
      using d True by auto
    ultimately show ?thesis by blast
  next
    case False
    from Cons.IH [OF cs, of bc bm] obtain bc' bm' where
      r: "scan_candidates D n ms medoid cs (bc, bm) = Inr (bc', bm')" and
      d: "(bc' = bc \<and> bm' = bm) \<or>
          (bm' \<in> set cs \<and> bm' \<notin> set ms \<and> bc' = cost_of D (remove1 medoid ms @ [bm']) \<and> bc' < bc)"
      by blast
    have "scan_candidates D n ms medoid (c # cs) (bc, bm) = Inr (bc', bm')"
      using False tc r by auto
    moreover have "(bc' = bc \<and> bm' = bm) \<or> (bm' \<in> set (c # cs) \<and> bm' \<notin> set ms \<and>
             bc' = cost_of D (remove1 medoid ms @ [bm']) \<and> bc' < bc)"
      using d by auto
    ultimately show ?thesis by blast
  qed
qed

lemma medoids_ok_swap:
  assumes "medoids_ok n k ms" "medoid \<in> set ms" "b = medoid \<or> (b \<notin> set ms \<and> b < n)"
  shows "medoids_ok n k (remove1 medoid ms @ [b])"
proof -
  have len: "length (remove1 medoid ms) = k - 1"
    using assms(1,2) by (simp add: medoids_ok_def length_remove1)
  have "0 < k" using assms(1,2) by (auto simp: medoids_ok_def)
  moreover have "b \<notin> set (remove1 medoid ms)"
    using assms by (auto simp: medoids_ok_def dest: notin_set_remove1)
  moreover have "\<forall>m\<in>set (remove1 medoid ms). m < n"
    using assms(1) by (auto simp: medoids_ok_def dest: notin_set_remove1)
  moreover have "b < n" using assms by (auto simp: medoids_ok_def)
  ultimately show ?thesis
    using assms(1) len by (simp add: medoids_ok_def)
qed

lemma set_swap_self:
  assumes "medoid \<in> set ms"
  shows "set (remove1 medoid ms @ [medoid]) = set ms"
proof (rule set_eqI)
  fix x
  show "x \<in> set (remove1 medoid ms @ [medoid]) \<longleftrightarrow> x \<in> set ms"
  proof (cases "x = medoid")
    case True
    then show ?thesis using assms by simp
  next
    case False
    then show ?thesis by (simp add: in_set_remove1)
  qed
qed

lemma replace_medoid_ok:
  assumes "0 < n" "medoids_ok n k ms" "medoid \<in> set ms" "bc = cost_of D ms"
  shows "\<exists>b bc'. replace_medoid D n (ms, bc) medoid = Inr (remove1 medoid ms @ [b], bc') \<and>
           medoids_ok n k (remove1 medoid ms @ [b]) \<and>
           bc' = cost_of D (remove1 medoid ms @ [b]) \<and>
           ((b = medoid \<and> bc' = bc) \<or> (b \<notin> set ms \<and> b < n \<and> bc' < bc))"
proof -
  have lt: "\<forall>m\<in>set ms. m < n" using assms(2) by (simp add: medoids_ok_def)
  have cs: "\<forall>c\<in>set [0..<n]. c < n" by simp
  from scan_candidates_ok [OF assms(1,3) lt cs, of D bc medoid] obtain bc' bm' where
    r: "scan_candidates D n ms medoid [0..<n] (bc, medoid) = Inr (bc', bm')" and
    d: "(bc' = bc \<and> bm' = medoid) \<or>
        (bm' \<in> set [0..<n] \<and> bm' \<notin> set ms \<and> bc' = cost_of D (remove1 medoid ms @ [bm']) \<and> bc' < bc)"
    by blast
  have rep: "replace_medoid D n (ms, bc) medoid = Inr (remove1 medoid ms @ [bm'], bc')"
    using r assms(3) by (simp add: replace_medoid_def list_remove_def)
  have b: "bm' = medoid \<or> (bm' \<notin> set ms \<and> bm' < n)" using d by auto
  have ok: "medoids_ok n k (remove1 medoid ms @ [bm'])"
    by (rule medoids_ok_swap [OF assms(2,3) b])
  have cost: "bc' = cost_of D (remove1 medoid ms @ [bm'])"
  proof (cases "bc' = bc \<and> bm' = medoid")
    case True
    then show ?thesis
      using assms(4) cost_of_set_cong [OF set_swap_self [OF assms(3)], of D] by simp
  next
    case False
    then show ?thesis using d by blast
  qed
  have "(bm' = medoid \<and> bc' = bc) \<or> (bm' \<notin> set ms \<and> bm' < n \<and> bc' < bc)"
    using d by auto
  then show ?thesis using rep ok cost by blast
qed

section \<open>Passes and termination of the loop\<close>

lemma sweep_ok:
  assumes "0 < n"
  shows "medoids_ok n k ms \<Longrightarrow> bc = cost_of D ms \<Longrightarrow> distinct snap \<Longrightarrow> set snap \<subseteq> set ms \<Longrightarrow>
         \<exists>ms' bc'. sweep D n snap (ms, bc) = Inr (ms', bc') \<and> medoids_ok n k ms' \<and>
           bc' = cost_of D ms' \<and> ((set ms' = set ms \<and> bc' = bc) \<or> bc' < bc)"
proof (induction snap arbitrary: ms bc)
  case Nil
  then show ?case by simp
next
  case (Cons medoid rest)
  have mem: "medoid \<in> set ms" using Cons.prems(4) by simp
  from replace_medoid_ok [OF assms Cons.prems(1) mem Cons.prems(2)] obtain b bc1 where
    rep: "replace_medoid D n (ms, bc) medoid = Inr (remove1 medoid ms @ [b], bc1)" and
    ok1: "medoids_ok n k (remove1 medoid ms @ [b])" and
    c1: "bc1 = cost_of D (remove1 medoid ms @ [b])" and
    d1: "(b = medoid \<and> bc1 = bc) \<or> (b \<notin> set ms \<and> b < n \<and> bc1 < bc)"
    by blast
  let ?ms1 = "remove1 medoid ms @ [b]"
  have dr: "distinct rest" and nm: "medoid \<notin> set rest" using Cons.prems(3) by simp_all
  have sub: "set rest \<subseteq> set ?ms1"
  proof
    fix r assume r: "r \<in> set rest"
    then have "r \<noteq> medoid" using nm by auto
    moreover have "r \<in> set ms" using r Cons.prems(4) by auto
    ultimately show "r \<in> set ?ms1" by (simp add: in_set_remove1)
  qed
  from Cons.IH [OF ok1 c1 dr sub] obtain ms' bc' where
    sw: "sweep D n rest (?ms1, bc1) = Inr (ms', bc')" and
    ok': "medoids_ok n k ms'" and c': "bc' = cost_of D ms'" and
    d': "(set ms' = set ?ms1 \<and> bc' = bc1) \<or> bc' < bc1"
    by blast
  have "sweep D n (medoid # rest) (ms, bc) = Inr (ms', bc')"
    using rep sw by simp
  moreover have "(set ms' = set ms \<and> bc' = bc) \<or> bc' < bc"
  proof (cases "b = medoid \<and> bc1 = bc")
    case True
    then have "set ?ms1 = set ms" using set_swap_self [OF mem] by simp
    then show ?thesis using d' True by auto
  next
    case False
    then have "bc1 < bc" using d1 by blast
    then show ?thesis using d' by auto
  qed
  ultimately show ?case using ok' c' by blast
qed

lemma finite_medoid_lists: "finite {xs. length xs = k \<and> (\<forall>m\<in>set xs. m < (n::nat))}"
proof -
  have "{xs. length xs = k \<and> (\<forall>m\<in>set xs. m < n)} \<subseteq> {xs. set xs \<subseteq> {..<n} \<and> length xs = k}"
    by auto
  then show ?thesis
    by (rule finite_subset) (rule finite_lists_length_eq, simp)
qed


lemma finite_cheaper: "finite (cheaper D n k ms)"
  by (rule finite_subset [OF _ finite_medoid_lists [of k n]]) (auto simp: cheaper_def)

lemma cheaper_decreases:
  assumes "medoids_ok n k ms'" "cost_of D ms' < cost_of D ms"
  shows "card (cheaper D n k ms') < card (cheaper D n k ms)"
proof (rule psubset_card_mono [OF finite_cheaper])
  have "cheaper D n k ms' \<subseteq> cheaper D n k ms"
    using assms(2) by (auto simp: cheaper_def)
  moreover have "ms' \<in> cheaper D n k ms"
    using assms by (simp add: cheaper_def medoids_ok_def)
  moreover have "ms' \<notin> cheaper D n k ms'"
    by (simp add: cheaper_def)
  ultimately show "cheaper D n k ms' \<subset> cheaper D n k ms" by blast
qed

lemma pam_loop_terminates:
  assumes "0 < n"
  shows "medoids_ok n k ms \<Longrightarrow> bc = cost_of D ms \<Longrightarrow>
         \<exists>ms' bc' p. pam_loop D n (ms, bc) q = Some (Inr ((ms', bc'), p)) \<and> medoids_ok n k ms' \<and>
           bc' = cost_of D ms' \<and> bc' \<le> bc \<and> q < p"
proof (induction "card (cheaper D n k ms)" arbitrary: ms bc q rule: less_induct)
  case less
  have sn: "distinct ms" "set ms \<subseteq> set ms" using less.prems(1) by (simp_all add: medoids_ok_def)
  from sweep_ok [OF assms less.prems(1,2) sn] obtain ms1 bc1 where
    sw: "sweep D n ms (ms, bc) = Inr (ms1, bc1)" and
    ok1: "medoids_ok n k ms1" and c1: "bc1 = cost_of D ms1" and
    d1: "(set ms1 = set ms \<and> bc1 = bc) \<or> bc1 < bc"
    by blast
  show ?case
  proof (cases "set ms1 = set ms")
    case True
    then have "pam_loop D n (ms, bc) q = Some (Inr ((ms1, bc1), Suc q))"
      using sw by (subst pam_loop.simps) simp
    moreover have "bc1 \<le> bc" using d1 by auto
    ultimately show ?thesis using ok1 c1 by auto
  next
    case False
    then have lt: "bc1 < bc" using d1 by blast
    then have "cost_of D ms1 < cost_of D ms" using c1 less.prems(2) by simp
    then have "card (cheaper D n k ms1) < card (cheaper D n k ms)"
      by (rule cheaper_decreases [OF ok1])
    from less.hyps [OF this ok1 c1, of "Suc q"] obtain ms' bc' p where
      r: "pam_loop D n (ms1, bc1) (Suc q) = Some (Inr ((ms', bc'), p))" and
      ok': "medoids_ok n k ms'" and c': "bc' = cost_of D ms'" and le: "bc' \<le> bc1" and
      p: "Suc q < p"
      by blast
    have "pam_loop D n (ms, bc) q = Some (Inr ((ms', bc'), p))"
      using sw False r by (subst pam_loop.simps) simp
    then show ?thesis using ok' c' le lt p by auto
  qed
qed

section \<open>Reachable states and passes without improvement\<close>

lemma sweep_reach:
  assumes "0 < n"
  shows "medoids_ok n k ms \<Longrightarrow> bc = cost_of D ms \<Longrightarrow> distinct snap \<Longrightarrow> set snap \<subseteq> set ms \<Longrightarrow>
         reachable D n draw (ms, bc) \<Longrightarrow>
         \<exists>ms' bc'. sweep D n snap (ms, bc) = Inr (ms', bc') \<and> reachable D n draw (ms', bc')"
proof (induction snap arbitrary: ms bc)
  case Nil
  then show ?case by simp
next
  case (Cons medoid rest)
  have mem: "medoid \<in> set ms" using Cons.prems(4) by simp
  from replace_medoid_ok [OF assms Cons.prems(1) mem Cons.prems(2)] obtain b bc1 where
    rep: "replace_medoid D n (ms, bc) medoid = Inr (remove1 medoid ms @ [b], bc1)" and
    ok1: "medoids_ok n k (remove1 medoid ms @ [b])" and
    c1: "bc1 = cost_of D (remove1 medoid ms @ [b])"
    by blast
  let ?ms1 = "remove1 medoid ms @ [b]"
  have re1: "reachable D n draw (?ms1, bc1)"
    using reachable.replaced [OF Cons.prems(5) _ rep] mem by simp
  have dr: "distinct rest" and nm: "medoid \<notin> set rest" using Cons.prems(3) by simp_all
  have sub: "set rest \<subseteq> set ?ms1"
  proof
    fix r assume r: "r \<in> set rest"
    then have "r \<noteq> medoid" using nm by auto
    moreover have "r \<in> set ms" using r Cons.prems(4) by auto
    ultimately show "r \<in> set ?ms1" by (simp add: in_set_remove1)
  qed
  from Cons.IH [OF ok1 c1 dr sub re1] obtain ms' bc' where
    sw: "sweep D n rest (?ms1, bc1) = Inr (ms', bc')" and re': "reachable D n draw (ms', bc')"
    by blast
  have "sweep D n (medoid # rest) (ms, bc) = Inr (ms', bc')"
    using rep sw by simp
  then show ?case using re' by blast
qed

lemma pam_loop_reach:
  assumes "0 < n"
  shows "medoids_ok n k ms \<Longrightarrow> bc = cost_of D ms \<Longrightarrow> reachable D n draw (ms, bc) \<Longrightarrow>
         \<exists>st p. pam_loop D n (ms, bc) q = Some (Inr (st, p)) \<and> reachable D n draw st"
proof (induction "card (cheaper D n k ms)" arbitrary: ms bc q rule: less_induct)
  case less
  have sn: "distinct ms" "set ms \<subseteq> set ms" using less.prems(1) by (simp_all add: medoids_ok_def)
  from sweep_ok [OF assms less.prems(1,2) sn] obtain ms1 bc1 where
    sw: "sweep D n ms (ms, bc) = Inr (ms1, bc1)" and
    ok1: "medoids_ok n k ms1" and c1: "bc1 = cost_of D ms1" and
    d1: "(set ms1 = set ms \<and> bc1 = bc) \<or> bc1 < bc"
    by blast
  from sweep_reach [OF assms less.prems(1,2) sn less.prems(3)] sw
  have re1: "reachable D n draw (ms1, bc1)" by auto
  show ?case
  proof (cases "set ms1 = set ms")
    case True
    then have "pam_loop D n (ms, bc) q = Some (Inr ((ms1, bc1), Suc q))"
      using sw by (subst pam_loop.simps) simp
    then show ?thesis using re1 by blast
  next
    case False
    then have lt: "bc1 < bc" using d1 by blast
    then have "cost_of D ms1 < cost_of D ms" using c1 less.prems(2) by simp
    then have "card (cheaper D n k ms1) < card (cheaper D n k ms)"
      by (rule cheaper_decreases [OF ok1])
    from less.hyps [OF this ok1 c1 re1, of "Suc q"] obtain st p where
      r: "pam_loop D n (ms1, bc1) (Suc q) = Some (Inr (st, p))" and
      re': "reachable D n draw st"
      by blast
    have "pam_loop D n (ms, bc) q = Some (Inr (st, p))"
      using sw False r by (subst pam_loop.simps) simp
    then show ?thesis using re' by blast
  qed
qed

text \<open>Every state that can be reached keeps the invariant.\<close>

lemma reachable_invariant:
  assumes "0 < n" "medoids_ok n k draw" "0 < k"
  shows "reachable D n draw st \<Longrightarrow> medoids_ok n k (fst st) \<and> snd st = cost_of D (fst st)"
proof (induction rule: reachable.induct)
  case (initial best_cost)
  have "draw \<noteq> []" using assms(2,3) by (auto simp: medoids_ok_def)
  moreover have "\<forall>m\<in>set draw. m < n" using assms(2) by (simp add: medoids_ok_def)
  ultimately have "total_cost D n draw = Inr (cost_of D draw)"
    using assms(1) by (intro total_cost_ok)
  then show ?case using initial assms(2) by simp
next
  case (replaced st medoid st')
  obtain ms bc where st: "st = (ms, bc)" by (cases st)
  have ok: "medoids_ok n k ms" and c: "bc = cost_of D ms" and mem: "medoid \<in> set ms"
    using replaced st by simp_all
  from replace_medoid_ok [OF assms(1) ok mem c] replaced(3) st
  show ?case by auto
qed

text \<open>The scan and the sweep when no swap is an improvement.\<close>

lemma no_improving_swap_cost:
  assumes "0 < n" "medoids_ok n k ms" "0 < k"
  shows "no_improving_swap D n ms \<longleftrightarrow>
         (\<forall>medoid\<in>set ms. \<forall>c<n. c \<notin> set ms \<longrightarrow>
            \<not> cost_of D (remove1 medoid ms @ [c]) < cost_of D ms)"
proof -
  have ne: "ms \<noteq> []" using assms(2,3) by (auto simp: medoids_ok_def)
  have lt: "\<forall>m\<in>set ms. m < n" using assms(2) by (simp add: medoids_ok_def)
  have tc: "total_cost D n ms = Inr (cost_of D ms)"
    using assms(1) ne lt by (rule total_cost_ok)
  have sw: "total_cost D n (remove1 medoid ms @ [c]) = Inr (cost_of D (remove1 medoid ms @ [c]))"
    if "c < n" for medoid c
  proof (rule total_cost_ok [OF assms(1)])
    show "remove1 medoid ms @ [c] \<noteq> []" by simp
    show "\<forall>m\<in>set (remove1 medoid ms @ [c]). m < n"
      using lt that by (auto dest: notin_set_remove1)
  qed
  show ?thesis
    unfolding no_improving_swap_def using tc sw by (auto simp: )
qed

lemma set_swap:
  assumes "distinct ms"
  shows "set (remove1 medoid ms @ [c]) = insert c (set ms - {medoid})"
  using assms by (simp add: set_remove1_eq)

lemma sweep_no_improvement:
  assumes "0 < n"
      and ni: "\<forall>medoid\<in>S. \<forall>c<n. c \<notin> S \<longrightarrow> \<not> cost_of D (remove1 medoid ms0 @ [c]) < cost_of D ms0"
      and d0: "distinct ms0" and s0: "set ms0 = S"
  shows "medoids_ok n k ms \<Longrightarrow> bc = cost_of D ms \<Longrightarrow> distinct snap \<Longrightarrow> set snap \<subseteq> set ms \<Longrightarrow>
         set ms = S \<Longrightarrow>
         \<exists>ms'. sweep D n snap (ms, bc) = Inr (ms', bc) \<and> set ms' = S"
proof (induction snap arbitrary: ms)
  case Nil
  then show ?case by simp
next
  case (Cons medoid rest)
  have mem: "medoid \<in> set ms" using Cons.prems(4) by simp
  have dm: "distinct ms" using Cons.prems(1) by (simp add: medoids_ok_def)
  from replace_medoid_ok [OF assms(1) Cons.prems(1) mem Cons.prems(2)] obtain b bc1 where
    rep: "replace_medoid D n (ms, bc) medoid = Inr (remove1 medoid ms @ [b], bc1)" and
    ok1: "medoids_ok n k (remove1 medoid ms @ [b])" and
    c1: "bc1 = cost_of D (remove1 medoid ms @ [b])" and
    d1: "(b = medoid \<and> bc1 = bc) \<or> (b \<notin> set ms \<and> b < n \<and> bc1 < bc)"
    by blast
  have same: "b = medoid \<and> bc1 = bc"
  proof (rule ccontr)
    assume "\<not> (b = medoid \<and> bc1 = bc)"
    then have b: "b \<notin> set ms" "b < n" "bc1 < bc" using d1 by auto
    have "set (remove1 medoid ms @ [b]) = set (remove1 medoid ms0 @ [b])"
      using set_swap [OF dm] set_swap [OF d0] Cons.prems(5) s0 by simp
    then have "cost_of D (remove1 medoid ms @ [b]) = cost_of D (remove1 medoid ms0 @ [b])"
      by (rule cost_of_set_cong)
    moreover have "cost_of D ms = cost_of D ms0"
      using Cons.prems(5) s0 by (intro cost_of_set_cong) simp
    moreover have "\<not> cost_of D (remove1 medoid ms0 @ [b]) < cost_of D ms0"
      using ni mem b Cons.prems(5) by auto
    ultimately show False using b(3) c1 Cons.prems(2) by simp
  qed
  let ?ms1 = "remove1 medoid ms @ [medoid]"
  have s1: "set ?ms1 = S" using set_swap_self [OF mem] Cons.prems(5) by simp
  have dr: "distinct rest" and nm: "medoid \<notin> set rest" using Cons.prems(3) by simp_all
  have sub: "set rest \<subseteq> set ?ms1"
    using Cons.prems(4) set_swap_self [OF mem] by auto
  have ok1': "medoids_ok n k ?ms1" using ok1 same by simp
  have c1': "bc = cost_of D ?ms1" using c1 same by simp
  from Cons.IH [OF ok1' c1' dr sub s1] obtain ms' where
    sw: "sweep D n rest (?ms1, bc) = Inr (ms', bc)" and s': "set ms' = S"
    by blast
  have "sweep D n (medoid # rest) (ms, bc) = Inr (ms', bc)"
    using rep same sw by simp
  then show ?case using s' by blast
qed

lemma pam_loop_one_pass:
  assumes "0 < n" "medoids_ok n k ms" "0 < k" "bc = cost_of D ms" "no_improving_swap D n ms"
  shows "\<exists>ms'. pam_loop D n (ms, bc) q = Some (Inr ((ms', bc), Suc q)) \<and> set ms' = set ms"
proof -
  have ni: "\<forall>medoid\<in>set ms. \<forall>c<n. c \<notin> set ms \<longrightarrow>
            \<not> cost_of D (remove1 medoid ms @ [c]) < cost_of D ms"
    using assms(5) no_improving_swap_cost [OF assms(1,2,3)] by simp
  have dm: "distinct ms" using assms(2) by (simp add: medoids_ok_def)
  from sweep_no_improvement [OF assms(1) ni dm refl assms(2,4) dm subset_refl refl]
  obtain ms' where sw: "sweep D n ms (ms, bc) = Inr (ms', bc)" and s: "set ms' = set ms"
    by blast
  have "pam_loop D n (ms, bc) q = Some (Inr ((ms', bc), Suc q))"
    using sw s by (subst pam_loop.simps) simp
  then show ?thesis using s by blast
qed

section \<open>The final assignment and the whole run\<close>

lemma argmin_first:
  assumes "row \<noteq> []"
  defines "p \<equiv> length (takeWhile (\<lambda>x. x \<noteq> Min (set row)) row)"
  shows "p < length row" and "row ! p = Min (set (row :: real list))"
    and "\<forall>q<p. row ! q \<noteq> Min (set row)"
proof -
  let ?P = "\<lambda>x. x \<noteq> Min (set row)"
  have "Min (set row) \<in> set row" using assms(1) by (intro Min_in) simp_all
  then have "\<not> (\<forall>x\<in>set row. ?P x)" by blast
  then have "takeWhile ?P row \<noteq> row" by (simp add: takeWhile_eq_all_conv)
  moreover have "length (takeWhile ?P row) \<le> length row" by (rule length_takeWhile_le)
  ultimately show lt: "p < length row"
    unfolding p_def by (metis le_neq_implies_less takeWhile_eq_take take_all_iff order_refl)
  from nth_length_takeWhile [of ?P row] lt show "row ! p = Min (set row)"
    unfolding p_def by simp
  show "\<forall>q<p. row ! q \<noteq> Min (set row)"
  proof (intro allI impI)
    fix q assume q: "q < p"
    then have "takeWhile ?P row ! q \<in> set (takeWhile ?P row)"
      unfolding p_def by (intro nth_mem)
    then have "?P (takeWhile ?P row ! q)" by (rule set_takeWhileD [THEN conjunct2])
    moreover have "takeWhile ?P row ! q = row ! q"
      using q unfolding p_def by (rule takeWhile_nth)
    ultimately show "row ! q \<noteq> Min (set row)" by simp
  qed
qed

lemma finalizer_ok:
  assumes "0 < n" "ms \<noteq> []" "\<forall>m\<in>set ms. m < n"
  shows "finalizer D n ms =
           Inr \<lparr>medoids = ms,
                clusters = argmin_axis1 (map (\<lambda>row. map (\<lambda>m. row ! m) ms) D),
                final_cost = cost_of D ms\<rparr>"
proof -
  have sel: "select_columns D n ms = Inr (map (\<lambda>row. map (\<lambda>m. row ! m) ms) D)"
    using assms(1,3) by (auto simp: select_columns_def)
  have mn: "min_axis1 (map (\<lambda>row. map (\<lambda>m. row ! m) ms) D)
            = Inr (map (\<lambda>row. Min (set row)) (map (\<lambda>row. map (\<lambda>m. row ! m) ms) D))"
    using assms(2) by (auto simp: min_axis1_def)
  show ?thesis
    by (simp add: finalizer_def sel mn cost_of_def comp_def)
qed

lemma clusters_nth:
  assumes "i < length D"
  shows "argmin_axis1 (map (\<lambda>row. map (\<lambda>m. row ! m) ms) D) ! i =
         length (takeWhile (\<lambda>x. x \<noteq> Min (set (map (\<lambda>m. D ! i ! m) ms))) (map (\<lambda>m. D ! i ! m) ms))"
  using assms by (simp add: argmin_axis1_def)

lemma clusters_props:
  assumes "i < length D" "ms \<noteq> []"
  defines "c \<equiv> argmin_axis1 (map (\<lambda>row. map (\<lambda>m. row ! m) ms) D) ! i"
  shows "c < length ms"
    and "\<forall>m\<in>set ms. D ! i ! (ms ! c) \<le> D ! i ! m"
    and "\<forall>p<length ms. D ! i ! (ms ! p) \<le> D ! i ! (ms ! c) \<longrightarrow> c \<le> p"
proof -
  let ?row = "map (\<lambda>m. D ! i ! m) ms"
  have ne: "?row \<noteq> []" using assms(2) by simp
  have c: "c = length (takeWhile (\<lambda>x. x \<noteq> Min (set ?row)) ?row)"
    unfolding c_def by (rule clusters_nth [OF assms(1)])
  from argmin_first [OF ne] c
  have lt: "c < length ?row" and mn: "?row ! c = Min (set ?row)"
    and fst: "\<forall>q<c. ?row ! q \<noteq> Min (set ?row)"
    by simp_all
  show cl: "c < length ms" using lt by simp
  have val: "D ! i ! (ms ! c) = Min (set ?row)" using mn cl by simp
  show "\<forall>m\<in>set ms. D ! i ! (ms ! c) \<le> D ! i ! m"
  proof
    fix m assume "m \<in> set ms"
    then have "D ! i ! m \<in> set ?row" by auto
    then have "Min (set ?row) \<le> D ! i ! m" by (intro Min_le) simp_all
    then show "D ! i ! (ms ! c) \<le> D ! i ! m" using val by simp
  qed
  show "\<forall>p<length ms. D ! i ! (ms ! p) \<le> D ! i ! (ms ! c) \<longrightarrow> c \<le> p"
  proof (intro allI impI)
    fix p assume p: "p < length ms" and le: "D ! i ! (ms ! p) \<le> D ! i ! (ms ! c)"
    have "D ! i ! (ms ! p) \<in> set ?row" using p by auto
    then have "Min (set ?row) \<le> D ! i ! (ms ! p)" by (intro Min_le) simp_all
    then have "D ! i ! (ms ! p) = Min (set ?row)" using le val by linarith
    then have "?row ! p = Min (set ?row)" using p by simp
    then show "c \<le> p" using fst by (meson not_le_imp_less)
  qed
qed

text \<open>The run on a valid input.\<close>

lemma valid_input_distances:
  assumes "valid_input X k n kk"
  shows "length (distances X) = n"
  using assms by (auto simp: valid_input_def distances_def length_cost_matrix length_rows_of)

lemma cluster_PAM_valid:
  assumes "valid_input X k n kk"
  shows "cluster_PAM X k draw =
           (case optimizer (distances X) n draw of
              None \<Rightarrow> None
            | Some (Inl e) \<Rightarrow> Some (Inl e)
            | Some (Inr ((ms, best_cost), passes)) \<Rightarrow> Some (finalizer (distances X) n ms))"
proof -
  from assms obtain d xs where X: "X = Ndarray [n, d] xs" and nan: "\<forall>x\<in>set xs. \<not> isnan x"
    and k: "k = PyInt (int kk)" and kk: "0 < kk" "kk \<le> n"
    by (auto simp: valid_input_def)
  have D: "distances X = cost_matrix (rows_of n d (map num xs))"
    by (simp add: distances_def X)
  show ?thesis
    using nan kk unfolding D by (simp add: cluster_PAM_def X k Let_def)
qed

lemma optimizer_ok:
  assumes "0 < n" "medoids_ok n k draw" "0 < k"
  shows "\<exists>ms p. optimizer D n draw = Some (Inr ((ms, cost_of D ms), p)) \<and> medoids_ok n k ms \<and>
           cost_of D ms \<le> cost_of D draw \<and> 0 < p \<and> reachable D n draw (ms, cost_of D ms)"
proof -
  have "draw \<noteq> []" using assms(2,3) by (auto simp: medoids_ok_def)
  moreover have "\<forall>m\<in>set draw. m < n" using assms(2) by (simp add: medoids_ok_def)
  ultimately have tc: "total_cost D n draw = Inr (cost_of D draw)"
    using assms(1) by (intro total_cost_ok)
  then have re: "reachable D n draw (draw, cost_of D draw)" by (rule reachable.initial)
  from pam_loop_terminates [OF assms(1,2) refl, of D 0] obtain ms' bc' p where
    r: "pam_loop D n (draw, cost_of D draw) 0 = Some (Inr ((ms', bc'), p))" and
    ok: "medoids_ok n k ms'" and c: "bc' = cost_of D ms'" and le: "bc' \<le> cost_of D draw" and p: "0 < p"
    by blast
  from pam_loop_reach [OF assms(1,2) refl re, of 0] r
  have "reachable D n draw (ms', bc')" by auto
  then show ?thesis
    using r ok c le p tc by (auto simp: optimizer_def)
qed

lemma cluster_PAM_ok:
  assumes "valid_input X k n kk" "medoids_ok n kk draw"
  shows "\<exists>ms. cluster_PAM X k draw =
           Some (Inr \<lparr>medoids = ms,
                clusters = argmin_axis1 (map (\<lambda>row. map (\<lambda>m. row ! m) ms) (distances X)),
                final_cost = cost_of (distances X) ms\<rparr>) \<and>
           medoids_ok n kk ms \<and> reachable (distances X) n draw (ms, cost_of (distances X) ms)"
proof -
  have kk: "0 < kk" "kk \<le> n" using assms(1) by (auto simp: valid_input_def)
  then have n: "0 < n" by simp
  from optimizer_ok [OF n assms(2) kk(1), of "distances X"] obtain ms p where
    opt: "optimizer (distances X) n draw = Some (Inr ((ms, cost_of (distances X) ms), p))" and
    ok: "medoids_ok n kk ms" and re: "reachable (distances X) n draw (ms, cost_of (distances X) ms)"
    by blast
  have "ms \<noteq> []" using ok kk(1) by (auto simp: medoids_ok_def)
  moreover have "\<forall>m\<in>set ms. m < n" using ok by (simp add: medoids_ok_def)
  ultimately have fin: "finalizer (distances X) n ms =
           Inr \<lparr>medoids = ms,
                clusters = argmin_axis1 (map (\<lambda>row. map (\<lambda>m. row ! m) ms) (distances X)),
                final_cost = cost_of (distances X) ms\<rparr>"
    using n by (intro finalizer_ok)
  show ?thesis
    using cluster_PAM_valid [OF assms(1), of draw] opt fin ok re by simp
qed

section \<open>Runs on small inputs\<close>

lemma pam_loop_stop:
  "sweep D n (fst st) st = Inr st' \<Longrightarrow> set (fst st') = set (fst st) \<Longrightarrow>
   pam_loop D n st q = Some (Inr (st', Suc q))"
  by (subst pam_loop.simps) simp

lemma pam_loop_continue:
  "sweep D n (fst st) st = Inr st' \<Longrightarrow> set (fst st') \<noteq> set (fst st) \<Longrightarrow>
   pam_loop D n st q = pam_loop D n st' (Suc q)"
  by (subst pam_loop.simps) simp

lemma distances_two_points: "distances two_points = [[0, 1], [1, 0]]"
  by (simp add: distances_def two_points_def cost_matrix_def rows_of_def norm_axis1_def
      sub_broadcast_def upt_rec)

lemma distances_three_points: "distances three_points = [[0, 1, 2], [1, 0, 1], [2, 1, 0]]"
  by (simp add: distances_def three_points_def cost_matrix_def rows_of_def norm_axis1_def
      sub_broadcast_def upt_rec)

lemma valid_two_points: "valid_input two_points (PyInt 1) 2 1"
  by (simp add: valid_input_def two_points_def)

lemma valid_three_points: "valid_input three_points (PyInt 2) 3 2"
  by (simp add: valid_input_def three_points_def)

lemmas run_simps = total_cost_def select_columns_def min_axis1_def
  replace_medoid_def try_candidate_def list_remove_def finalizer_def argmin_axis1_def upt_rec

lemma optimizer_two_points:
  "optimizer [[0, 1], [1, 0]] 2 [1] = Some (Inr (([1], 1), 1))"
proof -
  have sw: "sweep [[0, 1], [1, 0]] 2 (fst ([1], 1)) ([1], 1) = Inr ([1], 1)"
    by (simp add: run_simps)
  have "pam_loop [[0, 1], [1, 0]] 2 ([1], 1) 0 = Some (Inr (([1], 1), Suc 0))"
    by (rule pam_loop_stop [OF sw]) simp
  then show ?thesis by (simp add: optimizer_def run_simps)
qed

lemma run_two_points:
  "cluster_PAM two_points (PyInt 1) [1] =
     Some (Inr \<lparr>medoids = [1], clusters = [0, 0], final_cost = 1\<rparr>)"
  unfolding cluster_PAM_valid [OF valid_two_points] distances_two_points optimizer_two_points
  by (simp add: run_simps)

lemma optimizer_three_points:
  "optimizer [[0, 1, 2], [1, 0, 1], [2, 1, 0]] 3 [2, 0] = Some (Inr (([2, 0], 1), 1))"
proof -
  have sw: "sweep [[0, 1, 2], [1, 0, 1], [2, 1, 0]] 3 (fst ([2, 0], 1)) ([2, 0], 1) = Inr ([2, 0], 1)"
    by (simp add: run_simps)
  have "pam_loop [[0, 1, 2], [1, 0, 1], [2, 1, 0]] 3 ([2, 0], 1) 0 = Some (Inr (([2, 0], 1), Suc 0))"
    by (rule pam_loop_stop [OF sw]) simp
  then show ?thesis by (simp add: optimizer_def run_simps)
qed

lemma run_three_points:
  "cluster_PAM three_points (PyInt 2) [2, 0] =
     Some (Inr \<lparr>medoids = [2, 0], clusters = [1, 0, 0], final_cost = 1\<rparr>)"
  unfolding cluster_PAM_valid [OF valid_three_points] distances_three_points optimizer_three_points
  by (simp add: run_simps)

section \<open>The claims\<close>

lemma medoids_ok_one: "medoids_ok 2 1 [1]"
  by (simp add: medoids_ok_def)

lemma medoids_ok_two: "medoids_ok 3 2 [2, 0]"
  by (simp add: medoids_ok_def)

lemma reachable_two_points: "reachable (distances two_points) 2 [1] ([1], 1)"
  by (rule reachable.initial) (simp add: distances_two_points run_simps)

lemma no_improving_swap_two_points: "no_improving_swap (distances two_points) 2 [1]"
  by (simp add: no_improving_swap_def distances_two_points run_simps)

















text \<open>
  C6. For a valid input, the medoid list has exactly \<open>k\<close> elements, pairwise distinct,
  each a row index below \<open>n\<close>: after the draw (the initial state can be reached), after
  every replacement of a medoid in the loop, and in the result that is returned.
\<close>

theorem medoids_stay_valid:
  assumes "valid_input X k n kk" "medoids_ok n kk draw"
  shows "(\<exists>c. reachable (distances X) n draw (draw, c)) \<and>
         (\<forall>st. reachable (distances X) n draw st \<longrightarrow> medoids_ok n kk (fst st)) \<and>
         (\<exists>r. cluster_PAM X k draw = Some (Inr r) \<and> medoids_ok n kk (medoids r))"
proof -
  have kk: "0 < kk" "kk \<le> n" using assms(1) by (auto simp: valid_input_def)
  then have n: "0 < n" by simp
  have "draw \<noteq> []" using assms(2) kk(1) by (auto simp: medoids_ok_def)
  moreover have "\<forall>m\<in>set draw. m < n" using assms(2) by (simp add: medoids_ok_def)
  ultimately have "total_cost (distances X) n draw = Inr (cost_of (distances X) draw)"
    using n by (intro total_cost_ok)
  then have "reachable (distances X) n draw (draw, cost_of (distances X) draw)"
    by (rule reachable.initial)
  moreover have "\<forall>st. reachable (distances X) n draw st \<longrightarrow> medoids_ok n kk (fst st)"
    using reachable_invariant [OF n assms(2) kk(1)] by blast
  moreover from cluster_PAM_ok [OF assms]
  have "\<exists>r. cluster_PAM X k draw = Some (Inr r) \<and> medoids_ok n kk (medoids r)"
    by auto
  ultimately show ?thesis by blast
qed

theorem medoids_stay_valid_witness:
  "valid_input two_points (PyInt 1) 2 1 \<and> medoids_ok 2 1 [1] \<and>
   reachable (distances two_points) 2 [1] ([1], 1) \<and> medoids_ok 2 1 (fst ([1], 1 :: real)) \<and>
   (\<exists>r. cluster_PAM two_points (PyInt 1) [1] = Some (Inr r) \<and> medoids_ok 2 1 (medoids r))"
proof -
  note t = medoids_stay_valid [OF valid_two_points medoids_ok_one]
  from t reachable_two_points have "medoids_ok 2 1 (fst ([1], 1 :: real))" by blast
  moreover from t have "\<exists>r. cluster_PAM two_points (PyInt 1) [1] = Some (Inr r) \<and>
      medoids_ok 2 1 (medoids r)" by blast
  ultimately show ?thesis
    using valid_two_points medoids_ok_one reachable_two_points by blast
qed

text \<open>
  C5. For a valid input and every state of the optimizer that can be reached, the tracked
  best cost is the cost of the current medoids, and replacing a medoid (remove, then
  append the best replacement) gives medoids whose cost is the new tracked cost and is
  at most the cost before the replacement.
\<close>

theorem cost_never_increases:
  assumes "valid_input X k n kk" "medoids_ok n kk draw"
    and "reachable (distances X) n draw st" "medoid \<in> set (fst st)"
  shows "\<exists>st'. replace_medoid (distances X) n st medoid = Inr st' \<and>
           total_cost (distances X) n (fst st) = Inr (snd st) \<and>
           total_cost (distances X) n (fst st') = Inr (snd st') \<and>
           snd st' \<le> snd st"
proof -
  have kk: "0 < kk" "kk \<le> n" using assms(1) by (auto simp: valid_input_def)
  then have n: "0 < n" by simp
  obtain ms bc where st: "st = (ms, bc)" by (cases st)
  from reachable_invariant [OF n assms(2) kk(1) assms(3)] st
  have ok: "medoids_ok n kk ms" and c: "bc = cost_of (distances X) ms" by simp_all
  have mem: "medoid \<in> set ms" using assms(4) st by simp
  have tc: "total_cost (distances X) n xs = Inr (cost_of (distances X) xs)"
    if "medoids_ok n kk xs" for xs
  proof (rule total_cost_ok [OF n])
    show "xs \<noteq> []" using that kk(1) by (auto simp: medoids_ok_def)
    show "\<forall>m\<in>set xs. m < n" using that by (simp add: medoids_ok_def)
  qed
  from replace_medoid_ok [OF n ok mem c] obtain b bc' where
    rep: "replace_medoid (distances X) n (ms, bc) medoid = Inr (remove1 medoid ms @ [b], bc')" and
    ok': "medoids_ok n kk (remove1 medoid ms @ [b])" and
    c': "bc' = cost_of (distances X) (remove1 medoid ms @ [b])" and
    d: "(b = medoid \<and> bc' = bc) \<or> (b \<notin> set ms \<and> b < n \<and> bc' < bc)"
    by blast
  have "bc' \<le> bc" using d by auto
  then show ?thesis
    using rep tc [OF ok] tc [OF ok'] c c' st by simp
qed

theorem cost_never_increases_witness:
  "valid_input two_points (PyInt 1) 2 1 \<and> medoids_ok 2 1 [1] \<and>
   reachable (distances two_points) 2 [1] ([1], 1) \<and> (1::nat) \<in> set (fst ([1], 1 :: real)) \<and>
   (\<exists>st'. replace_medoid (distances two_points) 2 ([1], 1) 1 = Inr st' \<and> snd st' \<le> 1)"
proof -
  have mem: "(1::nat) \<in> set (fst ([1], 1 :: real))" by simp
  from cost_never_increases [OF valid_two_points medoids_ok_one reachable_two_points mem]
  obtain st' where "replace_medoid (distances two_points) 2 ([1], 1) 1 = Inr st'"
    and "snd st' \<le> snd ([1::nat], 1 :: real)" by blast
  then have "\<exists>st'. replace_medoid (distances two_points) 2 ([1], 1) 1 = Inr st' \<and> snd st' \<le> 1"
    by (intro exI [of _ st']) simp
  then show ?thesis
    using valid_two_points medoids_ok_one reachable_two_points mem by blast
qed

text \<open>
  C4. For a valid input the optimizer loop ends after finitely many passes: the
  optimizer returns, and the number of passes is at least one. When no swap of a drawn
  medoid for a candidate costs strictly less than the drawn medoids, the loop ends after
  exactly one pass.
\<close>

theorem optimizer_terminates:
  assumes "valid_input X k n kk" "medoids_ok n kk draw"
  shows "(\<exists>st passes. optimizer (distances X) n draw = Some (Inr (st, passes)) \<and> 0 < passes) \<and>
         (no_improving_swap (distances X) n draw \<longrightarrow>
            (\<exists>st. optimizer (distances X) n draw = Some (Inr (st, 1))))"
proof -
  have kk: "0 < kk" "kk \<le> n" using assms(1) by (auto simp: valid_input_def)
  then have n: "0 < n" by simp
  let ?D = "distances X"
  from optimizer_ok [OF n assms(2) kk(1), of ?D]
  have fin: "\<exists>st passes. optimizer ?D n draw = Some (Inr (st, passes)) \<and> 0 < passes"
    by blast
  have one: "\<exists>st. optimizer ?D n draw = Some (Inr (st, 1))" if ni: "no_improving_swap ?D n draw"
  proof -
    have "draw \<noteq> []" using assms(2) kk(1) by (auto simp: medoids_ok_def)
    moreover have "\<forall>m\<in>set draw. m < n" using assms(2) by (simp add: medoids_ok_def)
    ultimately have tc: "total_cost ?D n draw = Inr (cost_of ?D draw)"
      using n by (intro total_cost_ok)
    from pam_loop_one_pass [OF n assms(2) kk(1) refl ni, of 0] obtain ms' where
      "pam_loop ?D n (draw, cost_of ?D draw) 0 = Some (Inr ((ms', cost_of ?D draw), Suc 0))"
      by blast
    then have "optimizer ?D n draw = Some (Inr ((ms', cost_of ?D draw), 1))"
      using tc by (simp add: optimizer_def)
    then show ?thesis by blast
  qed
  show ?thesis using fin one by blast
qed

theorem optimizer_terminates_witness:
  "valid_input two_points (PyInt 1) 2 1 \<and> medoids_ok 2 1 [1] \<and>
   no_improving_swap (distances two_points) 2 [1] \<and>
   (\<exists>st. optimizer (distances two_points) 2 [1] = Some (Inr (st, 1)))"
proof -
  from optimizer_terminates [OF valid_two_points medoids_ok_one] no_improving_swap_two_points
  have "\<exists>st. optimizer (distances two_points) 2 [1] = Some (Inr (st, 1))" by blast
  then show ?thesis
    using valid_two_points medoids_ok_one no_improving_swap_two_points by blast
qed

text \<open>
  C1, as the claim states it, fails: the returned assignment holds positions in the
  returned medoid list (the result of \<open>np.argmin\<close> over the selected columns), not row
  indices. For the points 0 and 1 on a line, \<open>k = 1\<close> and the drawn medoid 1, the medoid
  list is \<open>[1]\<close> and both points are assigned 0, which is not a medoid.
\<close>

theorem assignment_not_medoid_index:
  "cluster_PAM two_points (PyInt 1) [1] =
     Some (Inr \<lparr>medoids = [1], clusters = [0, 0], final_cost = 1\<rparr>) \<and>
   clusters \<lparr>medoids = [1], clusters = [0, 0], final_cost = 1\<rparr> ! 0
     \<notin> set (medoids \<lparr>medoids = [1], clusters = [0, 0], final_cost = 1\<rparr>)"
  using run_two_points by simp

text \<open>
  C1, amended. For a valid input the run returns; the medoid list has length \<open>k\<close>, the
  assignment has length \<open>n\<close>, and every element of the assignment is a position below
  \<open>k\<close> in the returned medoid list, the position of a medoid nearest to the point.
\<close>

theorem assignment_is_position:
  assumes "valid_input X k n kk" "medoids_ok n kk draw"
  shows "\<exists>r. cluster_PAM X k draw = Some (Inr r) \<and>
           length (medoids r) = kk \<and> length (clusters r) = n \<and>
           (\<forall>i<n. clusters r ! i < kk \<and>
              (\<forall>m\<in>set (medoids r).
                 distances X ! i ! (medoids r ! (clusters r ! i)) \<le> distances X ! i ! m))"
proof -
  have kk: "0 < kk" using assms(1) by (auto simp: valid_input_def)
  let ?D = "distances X"
  have len: "length ?D = n" by (rule valid_input_distances [OF assms(1)])
  from cluster_PAM_ok [OF assms] obtain ms where
    run: "cluster_PAM X k draw =
           Some (Inr \<lparr>medoids = ms,
                clusters = argmin_axis1 (map (\<lambda>row. map (\<lambda>m. row ! m) ms) ?D),
                final_cost = cost_of ?D ms\<rparr>)" and
    ok: "medoids_ok n kk ms"
    by blast
  let ?r = "\<lparr>medoids = ms, clusters = argmin_axis1 (map (\<lambda>row. map (\<lambda>m. row ! m) ms) ?D),
             final_cost = cost_of ?D ms\<rparr>"
  have lms: "length ms = kk" using ok by (simp add: medoids_ok_def)
  then have ne: "ms \<noteq> []" using kk by auto
  have "length (clusters ?r) = n" by (simp add: argmin_axis1_def len)
  moreover have "\<forall>i<n. clusters ?r ! i < kk \<and>
      (\<forall>m\<in>set (medoids ?r). ?D ! i ! (medoids ?r ! (clusters ?r ! i)) \<le> ?D ! i ! m)"
  proof (intro allI impI)
    fix i assume "i < n"
    then have i: "i < length ?D" using len by simp
    from clusters_props(1,2) [OF i ne] lms
    show "clusters ?r ! i < kk \<and>
      (\<forall>m\<in>set (medoids ?r). ?D ! i ! (medoids ?r ! (clusters ?r ! i)) \<le> ?D ! i ! m)"
      by simp
  qed
  ultimately show ?thesis using run lms by (intro exI [of _ ?r]) simp
qed

theorem assignment_is_position_witness:
  "valid_input two_points (PyInt 1) 2 1 \<and> medoids_ok 2 1 [1] \<and>
   (\<exists>r. cluster_PAM two_points (PyInt 1) [1] = Some (Inr r) \<and>
         length (medoids r) = 1 \<and> length (clusters r) = 2 \<and> clusters r ! 0 < 1)"
proof -
  from assignment_is_position [OF valid_two_points medoids_ok_one] obtain r where
    "cluster_PAM two_points (PyInt 1) [1] = Some (Inr r)" "length (medoids r) = 1"
    "length (clusters r) = 2" "\<forall>i<2. clusters r ! i < 1 \<and>
       (\<forall>m\<in>set (medoids r).
          distances two_points ! i ! (medoids r ! (clusters r ! i)) \<le> distances two_points ! i ! m)"
    by blast
  moreover from this(4) have "clusters r ! 0 < 1" by simp
  ultimately show ?thesis using valid_two_points medoids_ok_one by blast
qed

text \<open>
  C7, as the claim states it, fails: a tie goes to the medoid that stands first in the
  medoid list, and the list is not sorted. For the points 0, 1, 2 on a line, \<open>k = 2\<close> and
  the draw \<open>[2, 0]\<close>, the returned medoids are \<open>[2, 0]\<close>; point 1 is at distance 1 from
  both and is assigned position 0, the medoid 2, although the medoid 0 has the lower index.
\<close>

theorem tie_not_lowest_medoid_index:
  "cluster_PAM three_points (PyInt 2) [2, 0] =
     Some (Inr \<lparr>medoids = [2, 0], clusters = [1, 0, 0], final_cost = 1\<rparr>) \<and>
   distances three_points ! 1 ! 2 = distances three_points ! 1 ! 0 \<and>
   medoids \<lparr>medoids = [2, 0], clusters = [1, 0, 0], final_cost = 1\<rparr>
     ! (clusters \<lparr>medoids = [2, 0], clusters = [1, 0, 0], final_cost = 1\<rparr> ! 1) = 2 \<and>
   0 \<in> set (medoids \<lparr>medoids = [2, 0], clusters = [1, 0, 0], final_cost = 1\<rparr>) \<and>
   (0 :: nat) < 2"
  using run_three_points by (simp add: distances_three_points)

text \<open>
  C7, amended. For a valid input and every point, the assigned position is the lowest
  position in the returned medoid list among the medoids at the least distance from the
  point: a medoid at a position before the assigned one is strictly farther away, and no
  medoid is nearer than the assigned one.
\<close>

theorem tie_goes_to_first_position:
  assumes "valid_input X k n kk" "medoids_ok n kk draw"
  shows "\<exists>r. cluster_PAM X k draw = Some (Inr r) \<and>
           (\<forall>i<n. \<forall>p<kk.
              (distances X ! i ! (medoids r ! (clusters r ! i)) \<le> distances X ! i ! (medoids r ! p)) \<and>
              (distances X ! i ! (medoids r ! p) = distances X ! i ! (medoids r ! (clusters r ! i))
                 \<longrightarrow> clusters r ! i \<le> p))"
proof -
  have kk: "0 < kk" using assms(1) by (auto simp: valid_input_def)
  let ?D = "distances X"
  have len: "length ?D = n" by (rule valid_input_distances [OF assms(1)])
  from cluster_PAM_ok [OF assms] obtain ms where
    run: "cluster_PAM X k draw =
           Some (Inr \<lparr>medoids = ms,
                clusters = argmin_axis1 (map (\<lambda>row. map (\<lambda>m. row ! m) ms) ?D),
                final_cost = cost_of ?D ms\<rparr>)" and
    ok: "medoids_ok n kk ms"
    by blast
  let ?r = "\<lparr>medoids = ms, clusters = argmin_axis1 (map (\<lambda>row. map (\<lambda>m. row ! m) ms) ?D),
             final_cost = cost_of ?D ms\<rparr>"
  have lms: "length ms = kk" using ok by (simp add: medoids_ok_def)
  then have ne: "ms \<noteq> []" using kk by auto
  have "\<forall>i<n. \<forall>p<kk.
      (?D ! i ! (medoids ?r ! (clusters ?r ! i)) \<le> ?D ! i ! (medoids ?r ! p)) \<and>
      (?D ! i ! (medoids ?r ! p) = ?D ! i ! (medoids ?r ! (clusters ?r ! i))
         \<longrightarrow> clusters ?r ! i \<le> p)"
  proof (intro allI impI)
    fix i p assume "i < n" and p: "p < kk"
    then have i: "i < length ?D" using len by simp
    note cp = clusters_props [OF i ne]
    have "ms ! p \<in> set ms" using p lms by simp
    then have "?D ! i ! (medoids ?r ! (clusters ?r ! i)) \<le> ?D ! i ! (medoids ?r ! p)"
      using cp(2) by simp
    moreover have "?D ! i ! (medoids ?r ! p) = ?D ! i ! (medoids ?r ! (clusters ?r ! i))
         \<longrightarrow> clusters ?r ! i \<le> p"
      using cp(3) p lms by simp
    ultimately show "(?D ! i ! (medoids ?r ! (clusters ?r ! i)) \<le> ?D ! i ! (medoids ?r ! p)) \<and>
      (?D ! i ! (medoids ?r ! p) = ?D ! i ! (medoids ?r ! (clusters ?r ! i))
         \<longrightarrow> clusters ?r ! i \<le> p)" by blast
  qed
  then show ?thesis using run by (intro exI [of _ ?r]) simp
qed

theorem tie_goes_to_first_position_witness:
  "valid_input three_points (PyInt 2) 3 2 \<and> medoids_ok 3 2 [2, 0] \<and>
   (\<exists>r. cluster_PAM three_points (PyInt 2) [2, 0] = Some (Inr r) \<and>
      distances three_points ! 1 ! (medoids r ! (clusters r ! 1)) \<le>
        distances three_points ! 1 ! (medoids r ! 0))"
proof -
  from tie_goes_to_first_position [OF valid_three_points medoids_ok_two] obtain r where
    r: "cluster_PAM three_points (PyInt 2) [2, 0] = Some (Inr r)" and
    a: "\<forall>i<3. \<forall>p<2.
              (distances three_points ! i ! (medoids r ! (clusters r ! i))
                 \<le> distances three_points ! i ! (medoids r ! p)) \<and>
              (distances three_points ! i ! (medoids r ! p)
                 = distances three_points ! i ! (medoids r ! (clusters r ! i))
                 \<longrightarrow> clusters r ! i \<le> p)"
    by blast
  have "(1::nat) < 3" "(0::nat) < 2" by simp_all
  with a have "distances three_points ! 1 ! (medoids r ! (clusters r ! 1)) \<le>
        distances three_points ! 1 ! (medoids r ! 0)" by blast
  then show ?thesis using r valid_three_points medoids_ok_two by blast
qed

section \<open>The scenario of the four points\<close>

lemma distances_four_points:
  "distances four_points = scenario_matrix (sqrt 200) (sqrt 221) (sqrt 181)"
  by (simp add: distances_def four_points_def cost_matrix_def rows_of_def norm_axis1_def
      sub_broadcast_def upt_rec scenario_matrix_def)

lemma valid_four_points: "valid_input four_points (PyInt 2) 4 2"
  by (simp add: valid_input_def four_points_def)

lemma scenario_distances:
  "1 < sqrt 200" "1 < sqrt 221" "1 < sqrt 181" "sqrt 181 < sqrt 200" "sqrt 200 < sqrt 221"
  by simp_all

lemma optimizer_01:
  assumes "1 < a" "1 < b" "1 < c" "c < a" "a < b"
  shows "optimizer (scenario_matrix a b c) 4 [0, 1] = Some (Inr (([2, 1], 2), 2))"
proof -
  have c0: "total_cost (scenario_matrix a b c) 4 [0, 1] = Inr (a + c)"
    using assms by (simp add: run_simps scenario_matrix_def min_def)
  have sw0: "sweep (scenario_matrix a b c) 4 (fst ([0, 1], a + c)) ([0, 1], a + c) = Inr ([2, 1], 2)"
    using assms by (simp add: run_simps scenario_matrix_def min_def)
  have sw1: "sweep (scenario_matrix a b c) 4 (fst ([2, 1], 2)) ([2, 1], 2) = Inr ([2, 1], 2)"
    using assms by (simp add: run_simps scenario_matrix_def min_def)
  have lp1: "pam_loop (scenario_matrix a b c) 4 ([2, 1], 2) (Suc 0) = Some (Inr (([2, 1], 2), Suc (Suc 0)))"
    by (rule pam_loop_stop [OF sw1]) auto
  have ne0: "set (fst ([2, 1] :: nat list, 2)) \<noteq> set (fst ([0, 1] :: nat list, a + c))"
    by (simp add: doubleton_eq_iff)
  have lp0: "pam_loop (scenario_matrix a b c) 4 ([0, 1], a + c) (0) = Some (Inr (([2, 1], 2), Suc (Suc 0)))"
    by (rule trans [OF pam_loop_continue [OF sw0 ne0] lp1])
  show ?thesis
    unfolding optimizer_def c0 sum.case lp0 by simp
qed

lemma run_01:
  "cluster_PAM four_points (PyInt 2) [0, 1] =
     Some (Inr \<lparr>medoids = [2, 1], clusters = [1, 1, 0, 0], final_cost = 2\<rparr>)"
  unfolding cluster_PAM_valid [OF valid_four_points] distances_four_points
    optimizer_01 [OF scenario_distances]
  by (simp add: run_simps scenario_matrix_def min_def)

lemma optimizer_02:
  assumes "1 < a" "1 < b" "1 < c" "c < a" "a < b"
  shows "optimizer (scenario_matrix a b c) 4 [0, 2] = Some (Inr (([0, 2], 2), 1))"
proof -
  have c0: "total_cost (scenario_matrix a b c) 4 [0, 2] = Inr (2)"
    using assms by (simp add: run_simps scenario_matrix_def min_def)
  have sw0: "sweep (scenario_matrix a b c) 4 (fst ([0, 2], 2)) ([0, 2], 2) = Inr ([0, 2], 2)"
    using assms by (simp add: run_simps scenario_matrix_def min_def)
  have lp0: "pam_loop (scenario_matrix a b c) 4 ([0, 2], 2) (0) = Some (Inr (([0, 2], 2), Suc 0))"
    by (rule pam_loop_stop [OF sw0]) auto
  show ?thesis
    unfolding optimizer_def c0 sum.case lp0 by simp
qed

lemma run_02:
  "cluster_PAM four_points (PyInt 2) [0, 2] =
     Some (Inr \<lparr>medoids = [0, 2], clusters = [0, 0, 1, 1], final_cost = 2\<rparr>)"
  unfolding cluster_PAM_valid [OF valid_four_points] distances_four_points
    optimizer_02 [OF scenario_distances]
  by (simp add: run_simps scenario_matrix_def min_def)

lemma optimizer_03:
  assumes "1 < a" "1 < b" "1 < c" "c < a" "a < b"
  shows "optimizer (scenario_matrix a b c) 4 [0, 3] = Some (Inr (([0, 3], 2), 1))"
proof -
  have c0: "total_cost (scenario_matrix a b c) 4 [0, 3] = Inr (2)"
    using assms by (simp add: run_simps scenario_matrix_def min_def)
  have sw0: "sweep (scenario_matrix a b c) 4 (fst ([0, 3], 2)) ([0, 3], 2) = Inr ([0, 3], 2)"
    using assms by (simp add: run_simps scenario_matrix_def min_def)
  have lp0: "pam_loop (scenario_matrix a b c) 4 ([0, 3], 2) (0) = Some (Inr (([0, 3], 2), Suc 0))"
    by (rule pam_loop_stop [OF sw0]) auto
  show ?thesis
    unfolding optimizer_def c0 sum.case lp0 by simp
qed

lemma run_03:
  "cluster_PAM four_points (PyInt 2) [0, 3] =
     Some (Inr \<lparr>medoids = [0, 3], clusters = [0, 0, 1, 1], final_cost = 2\<rparr>)"
  unfolding cluster_PAM_valid [OF valid_four_points] distances_four_points
    optimizer_03 [OF scenario_distances]
  by (simp add: run_simps scenario_matrix_def min_def)

lemma optimizer_10:
  assumes "1 < a" "1 < b" "1 < c" "c < a" "a < b"
  shows "optimizer (scenario_matrix a b c) 4 [1, 0] = Some (Inr (([2, 0], 2), 2))"
proof -
  have c0: "total_cost (scenario_matrix a b c) 4 [1, 0] = Inr (a + c)"
    using assms by (simp add: run_simps scenario_matrix_def min_def)
  have sw0: "sweep (scenario_matrix a b c) 4 (fst ([1, 0], a + c)) ([1, 0], a + c) = Inr ([2, 0], 2)"
    using assms by (simp add: run_simps scenario_matrix_def min_def)
  have sw1: "sweep (scenario_matrix a b c) 4 (fst ([2, 0], 2)) ([2, 0], 2) = Inr ([2, 0], 2)"
    using assms by (simp add: run_simps scenario_matrix_def min_def)
  have lp1: "pam_loop (scenario_matrix a b c) 4 ([2, 0], 2) (Suc 0) = Some (Inr (([2, 0], 2), Suc (Suc 0)))"
    by (rule pam_loop_stop [OF sw1]) auto
  have ne0: "set (fst ([2, 0] :: nat list, 2)) \<noteq> set (fst ([1, 0] :: nat list, a + c))"
    by (simp add: doubleton_eq_iff)
  have lp0: "pam_loop (scenario_matrix a b c) 4 ([1, 0], a + c) (0) = Some (Inr (([2, 0], 2), Suc (Suc 0)))"
    by (rule trans [OF pam_loop_continue [OF sw0 ne0] lp1])
  show ?thesis
    unfolding optimizer_def c0 sum.case lp0 by simp
qed

lemma run_10:
  "cluster_PAM four_points (PyInt 2) [1, 0] =
     Some (Inr \<lparr>medoids = [2, 0], clusters = [1, 1, 0, 0], final_cost = 2\<rparr>)"
  unfolding cluster_PAM_valid [OF valid_four_points] distances_four_points
    optimizer_10 [OF scenario_distances]
  by (simp add: run_simps scenario_matrix_def min_def)

lemma optimizer_12:
  assumes "1 < a" "1 < b" "1 < c" "c < a" "a < b"
  shows "optimizer (scenario_matrix a b c) 4 [1, 2] = Some (Inr (([1, 2], 2), 1))"
proof -
  have c0: "total_cost (scenario_matrix a b c) 4 [1, 2] = Inr (2)"
    using assms by (simp add: run_simps scenario_matrix_def min_def)
  have sw0: "sweep (scenario_matrix a b c) 4 (fst ([1, 2], 2)) ([1, 2], 2) = Inr ([1, 2], 2)"
    using assms by (simp add: run_simps scenario_matrix_def min_def)
  have lp0: "pam_loop (scenario_matrix a b c) 4 ([1, 2], 2) (0) = Some (Inr (([1, 2], 2), Suc 0))"
    by (rule pam_loop_stop [OF sw0]) auto
  show ?thesis
    unfolding optimizer_def c0 sum.case lp0 by simp
qed

lemma run_12:
  "cluster_PAM four_points (PyInt 2) [1, 2] =
     Some (Inr \<lparr>medoids = [1, 2], clusters = [0, 0, 1, 1], final_cost = 2\<rparr>)"
  unfolding cluster_PAM_valid [OF valid_four_points] distances_four_points
    optimizer_12 [OF scenario_distances]
  by (simp add: run_simps scenario_matrix_def min_def)

lemma optimizer_13:
  assumes "1 < a" "1 < b" "1 < c" "c < a" "a < b"
  shows "optimizer (scenario_matrix a b c) 4 [1, 3] = Some (Inr (([1, 3], 2), 1))"
proof -
  have c0: "total_cost (scenario_matrix a b c) 4 [1, 3] = Inr (2)"
    using assms by (simp add: run_simps scenario_matrix_def min_def)
  have sw0: "sweep (scenario_matrix a b c) 4 (fst ([1, 3], 2)) ([1, 3], 2) = Inr ([1, 3], 2)"
    using assms by (simp add: run_simps scenario_matrix_def min_def)
  have lp0: "pam_loop (scenario_matrix a b c) 4 ([1, 3], 2) (0) = Some (Inr (([1, 3], 2), Suc 0))"
    by (rule pam_loop_stop [OF sw0]) auto
  show ?thesis
    unfolding optimizer_def c0 sum.case lp0 by simp
qed

lemma run_13:
  "cluster_PAM four_points (PyInt 2) [1, 3] =
     Some (Inr \<lparr>medoids = [1, 3], clusters = [0, 0, 1, 1], final_cost = 2\<rparr>)"
  unfolding cluster_PAM_valid [OF valid_four_points] distances_four_points
    optimizer_13 [OF scenario_distances]
  by (simp add: run_simps scenario_matrix_def min_def)

lemma optimizer_20:
  assumes "1 < a" "1 < b" "1 < c" "c < a" "a < b"
  shows "optimizer (scenario_matrix a b c) 4 [2, 0] = Some (Inr (([2, 0], 2), 1))"
proof -
  have c0: "total_cost (scenario_matrix a b c) 4 [2, 0] = Inr (2)"
    using assms by (simp add: run_simps scenario_matrix_def min_def)
  have sw0: "sweep (scenario_matrix a b c) 4 (fst ([2, 0], 2)) ([2, 0], 2) = Inr ([2, 0], 2)"
    using assms by (simp add: run_simps scenario_matrix_def min_def)
  have lp0: "pam_loop (scenario_matrix a b c) 4 ([2, 0], 2) (0) = Some (Inr (([2, 0], 2), Suc 0))"
    by (rule pam_loop_stop [OF sw0]) auto
  show ?thesis
    unfolding optimizer_def c0 sum.case lp0 by simp
qed

lemma run_20:
  "cluster_PAM four_points (PyInt 2) [2, 0] =
     Some (Inr \<lparr>medoids = [2, 0], clusters = [1, 1, 0, 0], final_cost = 2\<rparr>)"
  unfolding cluster_PAM_valid [OF valid_four_points] distances_four_points
    optimizer_20 [OF scenario_distances]
  by (simp add: run_simps scenario_matrix_def min_def)

lemma optimizer_21:
  assumes "1 < a" "1 < b" "1 < c" "c < a" "a < b"
  shows "optimizer (scenario_matrix a b c) 4 [2, 1] = Some (Inr (([2, 1], 2), 1))"
proof -
  have c0: "total_cost (scenario_matrix a b c) 4 [2, 1] = Inr (2)"
    using assms by (simp add: run_simps scenario_matrix_def min_def)
  have sw0: "sweep (scenario_matrix a b c) 4 (fst ([2, 1], 2)) ([2, 1], 2) = Inr ([2, 1], 2)"
    using assms by (simp add: run_simps scenario_matrix_def min_def)
  have lp0: "pam_loop (scenario_matrix a b c) 4 ([2, 1], 2) (0) = Some (Inr (([2, 1], 2), Suc 0))"
    by (rule pam_loop_stop [OF sw0]) auto
  show ?thesis
    unfolding optimizer_def c0 sum.case lp0 by simp
qed

lemma run_21:
  "cluster_PAM four_points (PyInt 2) [2, 1] =
     Some (Inr \<lparr>medoids = [2, 1], clusters = [1, 1, 0, 0], final_cost = 2\<rparr>)"
  unfolding cluster_PAM_valid [OF valid_four_points] distances_four_points
    optimizer_21 [OF scenario_distances]
  by (simp add: run_simps scenario_matrix_def min_def)

lemma optimizer_23:
  assumes "1 < a" "1 < b" "1 < c" "c < a" "a < b"
  shows "optimizer (scenario_matrix a b c) 4 [2, 3] = Some (Inr (([0, 3], 2), 2))"
proof -
  have c0: "total_cost (scenario_matrix a b c) 4 [2, 3] = Inr (a + c)"
    using assms by (simp add: run_simps scenario_matrix_def min_def)
  have sw0: "sweep (scenario_matrix a b c) 4 (fst ([2, 3], a + c)) ([2, 3], a + c) = Inr ([0, 3], 2)"
    using assms by (simp add: run_simps scenario_matrix_def min_def)
  have sw1: "sweep (scenario_matrix a b c) 4 (fst ([0, 3], 2)) ([0, 3], 2) = Inr ([0, 3], 2)"
    using assms by (simp add: run_simps scenario_matrix_def min_def)
  have lp1: "pam_loop (scenario_matrix a b c) 4 ([0, 3], 2) (Suc 0) = Some (Inr (([0, 3], 2), Suc (Suc 0)))"
    by (rule pam_loop_stop [OF sw1]) auto
  have ne0: "set (fst ([0, 3] :: nat list, 2)) \<noteq> set (fst ([2, 3] :: nat list, a + c))"
    by (simp add: doubleton_eq_iff)
  have lp0: "pam_loop (scenario_matrix a b c) 4 ([2, 3], a + c) (0) = Some (Inr (([0, 3], 2), Suc (Suc 0)))"
    by (rule trans [OF pam_loop_continue [OF sw0 ne0] lp1])
  show ?thesis
    unfolding optimizer_def c0 sum.case lp0 by simp
qed

lemma run_23:
  "cluster_PAM four_points (PyInt 2) [2, 3] =
     Some (Inr \<lparr>medoids = [0, 3], clusters = [0, 0, 1, 1], final_cost = 2\<rparr>)"
  unfolding cluster_PAM_valid [OF valid_four_points] distances_four_points
    optimizer_23 [OF scenario_distances]
  by (simp add: run_simps scenario_matrix_def min_def)

lemma optimizer_30:
  assumes "1 < a" "1 < b" "1 < c" "c < a" "a < b"
  shows "optimizer (scenario_matrix a b c) 4 [3, 0] = Some (Inr (([3, 0], 2), 1))"
proof -
  have c0: "total_cost (scenario_matrix a b c) 4 [3, 0] = Inr (2)"
    using assms by (simp add: run_simps scenario_matrix_def min_def)
  have sw0: "sweep (scenario_matrix a b c) 4 (fst ([3, 0], 2)) ([3, 0], 2) = Inr ([3, 0], 2)"
    using assms by (simp add: run_simps scenario_matrix_def min_def)
  have lp0: "pam_loop (scenario_matrix a b c) 4 ([3, 0], 2) (0) = Some (Inr (([3, 0], 2), Suc 0))"
    by (rule pam_loop_stop [OF sw0]) auto
  show ?thesis
    unfolding optimizer_def c0 sum.case lp0 by simp
qed

lemma run_30:
  "cluster_PAM four_points (PyInt 2) [3, 0] =
     Some (Inr \<lparr>medoids = [3, 0], clusters = [1, 1, 0, 0], final_cost = 2\<rparr>)"
  unfolding cluster_PAM_valid [OF valid_four_points] distances_four_points
    optimizer_30 [OF scenario_distances]
  by (simp add: run_simps scenario_matrix_def min_def)

lemma optimizer_31:
  assumes "1 < a" "1 < b" "1 < c" "c < a" "a < b"
  shows "optimizer (scenario_matrix a b c) 4 [3, 1] = Some (Inr (([3, 1], 2), 1))"
proof -
  have c0: "total_cost (scenario_matrix a b c) 4 [3, 1] = Inr (2)"
    using assms by (simp add: run_simps scenario_matrix_def min_def)
  have sw0: "sweep (scenario_matrix a b c) 4 (fst ([3, 1], 2)) ([3, 1], 2) = Inr ([3, 1], 2)"
    using assms by (simp add: run_simps scenario_matrix_def min_def)
  have lp0: "pam_loop (scenario_matrix a b c) 4 ([3, 1], 2) (0) = Some (Inr (([3, 1], 2), Suc 0))"
    by (rule pam_loop_stop [OF sw0]) auto
  show ?thesis
    unfolding optimizer_def c0 sum.case lp0 by simp
qed

lemma run_31:
  "cluster_PAM four_points (PyInt 2) [3, 1] =
     Some (Inr \<lparr>medoids = [3, 1], clusters = [1, 1, 0, 0], final_cost = 2\<rparr>)"
  unfolding cluster_PAM_valid [OF valid_four_points] distances_four_points
    optimizer_31 [OF scenario_distances]
  by (simp add: run_simps scenario_matrix_def min_def)

lemma optimizer_32:
  assumes "1 < a" "1 < b" "1 < c" "c < a" "a < b"
  shows "optimizer (scenario_matrix a b c) 4 [3, 2] = Some (Inr (([0, 2], 2), 2))"
proof -
  have c0: "total_cost (scenario_matrix a b c) 4 [3, 2] = Inr (a + c)"
    using assms by (simp add: run_simps scenario_matrix_def min_def)
  have sw0: "sweep (scenario_matrix a b c) 4 (fst ([3, 2], a + c)) ([3, 2], a + c) = Inr ([0, 2], 2)"
    using assms by (simp add: run_simps scenario_matrix_def min_def)
  have sw1: "sweep (scenario_matrix a b c) 4 (fst ([0, 2], 2)) ([0, 2], 2) = Inr ([0, 2], 2)"
    using assms by (simp add: run_simps scenario_matrix_def min_def)
  have lp1: "pam_loop (scenario_matrix a b c) 4 ([0, 2], 2) (Suc 0) = Some (Inr (([0, 2], 2), Suc (Suc 0)))"
    by (rule pam_loop_stop [OF sw1]) auto
  have ne0: "set (fst ([0, 2] :: nat list, 2)) \<noteq> set (fst ([3, 2] :: nat list, a + c))"
    by (simp add: doubleton_eq_iff)
  have lp0: "pam_loop (scenario_matrix a b c) 4 ([3, 2], a + c) (0) = Some (Inr (([0, 2], 2), Suc (Suc 0)))"
    by (rule trans [OF pam_loop_continue [OF sw0 ne0] lp1])
  show ?thesis
    unfolding optimizer_def c0 sum.case lp0 by simp
qed

lemma run_32:
  "cluster_PAM four_points (PyInt 2) [3, 2] =
     Some (Inr \<lparr>medoids = [0, 2], clusters = [0, 0, 1, 1], final_cost = 2\<rparr>)"
  unfolding cluster_PAM_valid [OF valid_four_points] distances_four_points
    optimizer_32 [OF scenario_distances]
  by (simp add: run_simps scenario_matrix_def min_def)

lemma draws_of_two_from_four:
  assumes "medoids_ok 4 2 draw"
  shows "draw \<in> {[0, 1], [0, 2], [0, 3], [1, 0], [1, 2], [1, 3],
                  [2, 0], [2, 1], [2, 3], [3, 0], [3, 1], [3, 2]}"
proof -
  from assms have len: "length draw = 2" and d: "distinct draw" and lt: "\<forall>m\<in>set draw. m < 4"
    by (simp_all add: medoids_ok_def)
  from len obtain x y where xy: "draw = [x, y]"
    by (cases draw; cases "tl draw") auto
  have small: "m = 0 \<or> m = 1 \<or> m = 2 \<or> m = 3" if "m < 4" for m :: nat
    using that by arith
  have "x \<noteq> y" using d xy by simp
  moreover have "x = 0 \<or> x = 1 \<or> x = 2 \<or> x = 3" using lt xy by (intro small) simp
  moreover have "y = 0 \<or> y = 1 \<or> y = 2 \<or> y = 3" using lt xy by (intro small) simp
  ultimately show ?thesis unfolding xy by auto
qed

lemma all_below_four: "(\<forall>i<4. P i) \<longleftrightarrow> P 0 \<and> P 1 \<and> P 2 \<and> P (3::nat)"
proof -
  have "i < 4 \<longleftrightarrow> i = 0 \<or> i = 1 \<or> i = 2 \<or> i = 3" for i :: nat by arith
  then show ?thesis by auto
qed

text \<open>
  C2. For \<open>X = [[0,0],[0,1],[10,10],[10,11]]\<close> and \<open>k = 2\<close>, whatever two distinct medoids
  are drawn and in whatever order, \<open>cluster_PAM\<close> returns the cost 2 and two medoids, one
  of the points 0 and 1 and one of the points 2 and 3, and every point is assigned to
  the medoid of its own pair: the medoid at the assigned position is among the points 0
  and 1 exactly when the point is.
\<close>

theorem scenario_four_points:
  assumes "medoids_ok 4 2 draw"
  shows "\<exists>r. cluster_PAM four_points (PyInt 2) draw = Some (Inr r) \<and>
           final_cost r = 2 \<and> length (medoids r) = 2 \<and>
           card (set (medoids r) \<inter> {0, 1}) = 1 \<and> card (set (medoids r) \<inter> {2, 3}) = 1 \<and>
           (\<forall>i<4. (medoids r ! (clusters r ! i) < 2) = (i < 2))"
proof -
  let ?P = "\<lambda>r. final_cost r = 2 \<and> length (medoids r) = 2 \<and>
           card (set (medoids r) \<inter> {0, 1}) = 1 \<and> card (set (medoids r) \<inter> {2, 3}) = 1 \<and>
           (\<forall>i<4. (medoids r ! (clusters r ! i) < 2) = (i < 2))"
  have p21: "?P \<lparr>medoids = [2, 1], clusters = [1, 1, 0, 0], final_cost = 2\<rparr>"
    by (simp add: all_below_four)
  have p20: "?P \<lparr>medoids = [2, 0], clusters = [1, 1, 0, 0], final_cost = 2\<rparr>"
    by (simp add: all_below_four)
  have p30: "?P \<lparr>medoids = [3, 0], clusters = [1, 1, 0, 0], final_cost = 2\<rparr>"
    by (simp add: all_below_four)
  have p31: "?P \<lparr>medoids = [3, 1], clusters = [1, 1, 0, 0], final_cost = 2\<rparr>"
    by (simp add: all_below_four)
  have p02: "?P \<lparr>medoids = [0, 2], clusters = [0, 0, 1, 1], final_cost = 2\<rparr>"
    by (simp add: all_below_four)
  have p03: "?P \<lparr>medoids = [0, 3], clusters = [0, 0, 1, 1], final_cost = 2\<rparr>"
    by (simp add: all_below_four)
  have p12: "?P \<lparr>medoids = [1, 2], clusters = [0, 0, 1, 1], final_cost = 2\<rparr>"
    by (simp add: all_below_four)
  have p13: "?P \<lparr>medoids = [1, 3], clusters = [0, 0, 1, 1], final_cost = 2\<rparr>"
    by (simp add: all_below_four)
  from draws_of_two_from_four [OF assms]
  consider "draw = [0, 1]" | "draw = [0, 2]" | "draw = [0, 3]" | "draw = [1, 0]"
    | "draw = [1, 2]" | "draw = [1, 3]" | "draw = [2, 0]" | "draw = [2, 1]"
    | "draw = [2, 3]" | "draw = [3, 0]" | "draw = [3, 1]" | "draw = [3, 2]"
    by blast
  then show ?thesis
  proof cases
    case 1 then show ?thesis using run_01 p21 by blast
  next
    case 2 then show ?thesis using run_02 p02 by blast
  next
    case 3 then show ?thesis using run_03 p03 by blast
  next
    case 4 then show ?thesis using run_10 p20 by blast
  next
    case 5 then show ?thesis using run_12 p12 by blast
  next
    case 6 then show ?thesis using run_13 p13 by blast
  next
    case 7 then show ?thesis using run_20 p20 by blast
  next
    case 8 then show ?thesis using run_21 p21 by blast
  next
    case 9 then show ?thesis using run_23 p03 by blast
  next
    case 10 then show ?thesis using run_30 p30 by blast
  next
    case 11 then show ?thesis using run_31 p31 by blast
  next
    case 12 then show ?thesis using run_32 p02 by blast
  qed
qed

theorem scenario_four_points_witness:
  "medoids_ok 4 2 [0, 1] \<and>
   (\<exists>r. cluster_PAM four_points (PyInt 2) [0, 1] = Some (Inr r) \<and> final_cost r = 2)"
proof -
  have ok: "medoids_ok 4 2 [0, 1]" by (simp add: medoids_ok_def)
  from scenario_four_points [OF ok] show ?thesis using ok by blast
qed

text \<open>
  The order of the draw matters: the draws \<open>[0, 1]\<close> and \<open>[1, 0]\<close> hold the same points,
  and the runs end in different medoids.
\<close>

lemma draw_order_matters:
  "set [0, 1 :: nat] = set [1, 0] \<and>
   cluster_PAM four_points (PyInt 2) [0, 1] \<noteq> cluster_PAM four_points (PyInt 2) [1, 0]"
  unfolding run_01 run_10 by auto

end
